theory Spec2Isabelle
  imports Main "HOL-Library.Product_Lexorder"
begin

section \<open>Data model (works/models.py)\<close>

text \<open>
  Every Django model the views below touch is a record holding the columns those views
  read or write, and a table is the list of its rows in storage order. Primary keys are
  UUIDs in the source; they are opaque, so they are natural numbers here. The counters are
  \<^verbatim>\<open>PositiveIntegerField\<close>s, hence \<^typ>\<open>nat\<close>; timestamps count microseconds.
  The rows of \<^verbatim>\<open>PostLike\<close>, \<^verbatim>\<open>PostShare\<close>, \<^verbatim>\<open>PostView\<close> and \<^verbatim>\<open>UserFollow\<close> carry
  their foreign keys only: the views never read their primary key, except to delete the
  one row that \<^verbatim>\<open>get_or_create\<close> has just returned. \<^verbatim>\<open>PostShare\<close> keeps its \<open>platform\<close>,
  a column that must not be NULL. The nullable columns of \<^verbatim>\<open>PostView\<close> (\<^verbatim>\<open>ip_address\<close>,
  \<^verbatim>\<open>view_duration_seconds\<close>) and its \<^verbatim>\<open>user_agent\<close> are left out: no view reads them, and
  what \<^verbatim>\<open>get_client_ip\<close> yields decides neither whether a row is created nor any counter.
\<close>

record user =
  user_pk :: nat
  username :: string
  first_name :: string
  last_name :: string
  followers_count :: nat
  following_count :: nat

record destination =
  destination_pk :: nat
  dest_name :: string
  country :: string
  city :: string

record travel_post =
  post_pk :: nat
  user_id :: nat
  destination_id :: nat
  description :: string
  featured_3d :: bool
  is_public :: bool
  likes_count :: nat
  comments_count :: nat
  shares_count :: nat
  views_count :: nat
  created_at :: int

record post_tag =
  tag_pk :: nat
  tag_name :: string
  posts_count :: nat

record post_tag_relation =
  tr_post :: nat
  tr_tag :: nat

record post_like =
  pl_user :: nat
  pl_post :: nat

record post_share =
  ps_user :: nat
  ps_post :: nat
  platform :: string

record post_view =
  pv_user :: "nat option"
  pv_post :: nat

record user_follow =
  follower :: nat
  following :: nat

record user_preference =
  pref_user :: nat
  show_3d_content :: bool

record db =
  users :: "user list"
  destinations :: "destination list"
  posts :: "travel_post list"
  tags :: "post_tag list"
  tag_relations :: "post_tag_relation list"
  likes :: "post_like list"
  shares :: "post_share list"
  views :: "post_view list"
  follows :: "user_follow list"
  preferences :: "user_preference list"

section \<open>Errors, responses and the ORM calls the views use\<close>

text \<open>
  A view either returns an error response itself (401/403 from the permission class, the
  400 and 404 bodies it builds, the 404 of \<^verbatim>\<open>get_object_or_404\<close>) or lets an exception
  escape, which the framework answers with a 500. Both are values of \<open>error\<close>. A view
  returns the new database with its result, because the writes made before an exception
  stay: nothing in the source opens a transaction.
\<close>

datatype error =
    NotAuthenticated
  | Http400 string
  | Http404 string
  | NotFound
  | MultipleObjectsReturned
  | IntegrityError
  | DatabaseError
  | ValueError
  | ValidationError
  | TypeError

datatype payload =
    FollowResponse bool
  | FeedResponse "travel_post list" bool
  | ListResponse "travel_post list"
  | SearchResponse "user list" "destination list" "travel_post list" "post_tag list"

type_synonym response = "error + payload"

text \<open>\<^verbatim>\<open>Model.objects.get(...)\<close>: no row, one row, or more than one.\<close>

datatype 'a lookup = DoesNotExist | Found 'a | Multiple

definition get :: "('a \<Rightarrow> bool) \<Rightarrow> 'a list \<Rightarrow> 'a lookup" where
  "get P rows = (case filter P rows of [] \<Rightarrow> DoesNotExist | [r] \<Rightarrow> Found r | _ \<Rightarrow> Multiple)"

text \<open>
  \<^verbatim>\<open>obj.counter = F('counter') + 1; obj.save(update_fields=['counter'])\<close> is an UPDATE
  of the rows whose primary key is \<open>obj\<close>'s, computed in the database from the stored
  value. \<^verbatim>\<open>F('counter') - 1\<close> on a \<^verbatim>\<open>PositiveIntegerField\<close> whose stored value is 0
  violates the column's \<^verbatim>\<open>>= 0\<close> check: the UPDATE fails with an IntegrityError and writes
  nothing. A \<^verbatim>\<open>save(update_fields=...)\<close> that matches no row raises DatabaseError.

  After \<^verbatim>\<open>save\<close> the attribute of the in-memory instance still holds the \<^verbatim>\<open>F()\<close>
  expression: Django does not read the stored number back. \<open>like_post\<close>, \<open>share_post\<close>
  and \<open>get_object\<close> go on to use that attribute as a number (\<^verbatim>\<open>post.likes_count + 1\<close> and
  \<^verbatim>\<open>max(0, post.likes_count - 1)\<close> in a response body, \<^verbatim>\<open>views_count\<close> in the serializer),
  which raises TypeError, in the view or when the response is rendered. The UPDATE has been
  made by then, so these requests change the database and are answered with an error.
\<close>

definition update_rows :: "('a \<Rightarrow> bool) \<Rightarrow> ('a \<Rightarrow> nat) \<Rightarrow> ('a \<Rightarrow> 'a) \<Rightarrow> bool \<Rightarrow> 'a list
    \<Rightarrow> error + 'a list" where
  "update_rows sel counter upd decrement rows =
     (if filter sel rows = [] then Inl DatabaseError
      else if decrement \<and> list_ex (\<lambda>r. sel r \<and> counter r = 0) rows then Inl IntegrityError
      else Inr (map (\<lambda>r. if sel r then upd r else r) rows))"

section \<open>Likes (views.py, like_post)\<close>

definition get_public_post :: "db \<Rightarrow> nat \<Rightarrow> travel_post lookup" where
  "get_public_post s pid = get (\<lambda>p. post_pk p = pid \<and> is_public p) (posts s)"

definition like_post :: "nat option \<Rightarrow> nat \<Rightarrow> db \<Rightarrow> db \<times> response" where
  "like_post request_user pid s =
     (case request_user of
        None \<Rightarrow> (s, Inl NotAuthenticated)
      | Some u \<Rightarrow>
         (case get_public_post s pid of
            DoesNotExist \<Rightarrow> (s, Inl (Http404 ''Post not found''))
          | Multiple \<Rightarrow> (s, Inl MultipleObjectsReturned)
          | Found post \<Rightarrow>
             (case get (\<lambda>l. pl_user l = u \<and> pl_post l = post_pk post) (likes s) of
                Multiple \<Rightarrow> (s, Inl MultipleObjectsReturned)
              | DoesNotExist \<Rightarrow>
                 (let s1 = s\<lparr>likes := likes s @ [\<lparr>pl_user = u, pl_post = post_pk post\<rparr>]\<rparr> in
                  case update_rows (\<lambda>p. post_pk p = post_pk post) likes_count
                         (\<lambda>p. p\<lparr>likes_count := likes_count p + 1\<rparr>) False (posts s1) of
                    Inl e \<Rightarrow> (s1, Inl e)
                  | Inr ps \<Rightarrow> (s1\<lparr>posts := ps\<rparr>, Inl TypeError))
              | Found like \<Rightarrow>
                 (let s1 = s\<lparr>likes := remove1 like (likes s)\<rparr> in
                  case update_rows (\<lambda>p. post_pk p = post_pk post) likes_count
                         (\<lambda>p. p\<lparr>likes_count := likes_count p - 1\<rparr>) True (posts s1) of
                    Inl e \<Rightarrow> (s1, Inl e)
                  | Inr ps \<Rightarrow> (s1\<lparr>posts := ps\<rparr>, Inl TypeError)))))"

text \<open>A sequence of like requests, each by any user (or anonymous) on any post.\<close>

fun like_posts :: "(nat option \<times> nat) list \<Rightarrow> db \<Rightarrow> db" where
  "like_posts [] s = s"
| "like_posts ((u, pid) # reqs) s = like_posts reqs (fst (like_post u pid s))"

definition like_rows :: "db \<Rightarrow> nat \<Rightarrow> nat" where
  "like_rows s pid = length (filter (\<lambda>l. pl_post l = pid) (likes s))"

definition likes_count_consistent :: "db \<Rightarrow> nat \<Rightarrow> bool" where
  "likes_count_consistent s pid =
     list_all (\<lambda>p. likes_count p = like_rows s pid) (filter (\<lambda>p. post_pk p = pid) (posts s))"

section \<open>Shares (views.py, share_post)\<close>






section \<open>Follows (views.py, follow_user)\<close>

text \<open>
  \<^verbatim>\<open>user_to_follow == request.user\<close> compares primary keys. \<open>request_user\<close> is the
  primary key of the authenticated account, or \<open>None\<close> for an anonymous request, which
  the \<^verbatim>\<open>IsAuthenticated\<close> permission turns away.
\<close>

definition follow_user :: "nat option \<Rightarrow> nat \<Rightarrow> db \<Rightarrow> db \<times> response" where
  "follow_user request_user uid s =
     (case request_user of
        None \<Rightarrow> (s, Inl NotAuthenticated)
      | Some a \<Rightarrow>
         (case get (\<lambda>u. user_pk u = uid) (users s) of
            DoesNotExist \<Rightarrow> (s, Inl (Http404 ''User not found''))
          | Multiple \<Rightarrow> (s, Inl MultipleObjectsReturned)
          | Found user_to_follow \<Rightarrow>
             if user_pk user_to_follow = a then (s, Inl (Http400 ''Cannot follow yourself''))
             else
              (case get (\<lambda>f. follower f = a \<and> following f = user_pk user_to_follow) (follows s) of
                 Multiple \<Rightarrow> (s, Inl MultipleObjectsReturned)
               | DoesNotExist \<Rightarrow>
                  (let s1 = s\<lparr>follows := follows s @
                              [\<lparr>follower = a, following = user_pk user_to_follow\<rparr>]\<rparr> in
                   case update_rows (\<lambda>u. user_pk u = user_pk user_to_follow) followers_count
                          (\<lambda>u. u\<lparr>followers_count := followers_count u + 1\<rparr>) False (users s1) of
                     Inl e \<Rightarrow> (s1, Inl e)
                   | Inr us \<Rightarrow>
                      (let s2 = s1\<lparr>users := us\<rparr> in
                       case update_rows (\<lambda>u. user_pk u = a) following_count
                              (\<lambda>u. u\<lparr>following_count := following_count u + 1\<rparr>) False (users s2) of
                         Inl e \<Rightarrow> (s2, Inl e)
                       | Inr us' \<Rightarrow> (s2\<lparr>users := us'\<rparr>, Inr (FollowResponse True))))
               | Found follow \<Rightarrow>
                  (let s1 = s\<lparr>follows := remove1 follow (follows s)\<rparr> in
                   case update_rows (\<lambda>u. user_pk u = user_pk user_to_follow) followers_count
                          (\<lambda>u. u\<lparr>followers_count := followers_count u - 1\<rparr>) True (users s1) of
                     Inl e \<Rightarrow> (s1, Inl e)
                   | Inr us \<Rightarrow>
                      (let s2 = s1\<lparr>users := us\<rparr> in
                       case update_rows (\<lambda>u. user_pk u = a) following_count
                              (\<lambda>u. u\<lparr>following_count := following_count u - 1\<rparr>) True (users s2) of
                         Inl e \<Rightarrow> (s2, Inl e)
                       | Inr us' \<Rightarrow> (s2\<lparr>users := us'\<rparr>, Inr (FollowResponse False)))))))"

definition follow_rows :: "db \<Rightarrow> nat \<Rightarrow> nat \<Rightarrow> nat" where
  "follow_rows s a b = length (filter (\<lambda>f. follower f = a \<and> following f = b) (follows s))"

section \<open>Post detail (views.py, TravelPostDetailView.get_object)\<close>

text \<open>
  The retrieval of \<^verbatim>\<open>GET /posts/{pk}/\<close>: \<^verbatim>\<open>super().get_object()\<close> looks the post up in
  \<^verbatim>\<open>get_queryset()\<close> (the public posts) and answers 404 when there is none. The view
  returns \<open>obj\<close> with \<^verbatim>\<open>views_count\<close> still the \<^verbatim>\<open>F()\<close> expression, on which the
  serializer raises TypeError.
\<close>

definition get_object :: "nat option \<Rightarrow> nat \<Rightarrow> db \<Rightarrow> db \<times> response" where
  "get_object request_user pk s =
     (case get_public_post s pk of
        DoesNotExist \<Rightarrow> (s, Inl NotFound)
      | Multiple \<Rightarrow> (s, Inl MultipleObjectsReturned)
      | Found obj \<Rightarrow>
         (let tracked =
                (case request_user of
                   Some u \<Rightarrow>
                     (case get (\<lambda>v. pv_user v = Some u \<and> pv_post v = post_pk obj) (views s) of
                        Multiple \<Rightarrow> Inl MultipleObjectsReturned
                      | Found v \<Rightarrow> Inr s
                      | DoesNotExist \<Rightarrow>
                          Inr (s\<lparr>views := views s @
                                 [\<lparr>pv_user = Some u, pv_post = post_pk obj\<rparr>]\<rparr>))
                 | None \<Rightarrow>
                     Inr (s\<lparr>views := views s @ [\<lparr>pv_user = None, pv_post = post_pk obj\<rparr>]\<rparr>))
          in case tracked of
               Inl e \<Rightarrow> (s, Inl e)
             | Inr s1 \<Rightarrow>
                (case update_rows (\<lambda>p. post_pk p = post_pk obj) views_count
                        (\<lambda>p. p\<lparr>views_count := views_count p + 1\<rparr>) False (posts s1) of
                   Inl e \<Rightarrow> (s1, Inl e)
                 | Inr ps \<Rightarrow> (s1\<lparr>posts := ps\<rparr>, Inl TypeError))))"

fun get_objects :: "nat \<Rightarrow> nat option \<Rightarrow> nat \<Rightarrow> db \<Rightarrow> db" where
  "get_objects 0 u pk s = s"
| "get_objects (Suc n) u pk s = get_objects n u pk (fst (get_object u pk s))"

definition view_rows :: "db \<Rightarrow> nat \<Rightarrow> nat" where
  "view_rows s pk = length (filter (\<lambda>v. pv_post v = pk) (views s))"

definition user_view_rows :: "db \<Rightarrow> nat \<Rightarrow> nat \<Rightarrow> nat" where
  "user_view_rows s u pk = length (filter (\<lambda>v. pv_user v = Some u \<and> pv_post v = pk) (views s))"

section \<open>Querysets: ordering, slicing, request parameters\<close>

text \<open>
  \<^verbatim>\<open>TravelPost.Meta.ordering = ['-created_at']\<close>: a queryset of posts with no
  \<^verbatim>\<open>order_by\<close> of its own comes newest first. The database leaves the order of rows with
  equal keys open; the sort here is stable, so they stay in storage order.
\<close>

definition order_by_created :: "travel_post list \<Rightarrow> travel_post list" where
  "order_by_created qs = sort_key (\<lambda>p. - created_at p) qs"

text \<open>
  \<^verbatim>\<open>queryset[start:stop]\<close>: Django refuses a negative bound, and a stop below the start
  gives the empty page.
\<close>

definition slice :: "int \<Rightarrow> int \<Rightarrow> 'a list \<Rightarrow> error + 'a list" where
  "slice start stop qs =
     (if start < 0 \<or> stop < 0 then Inl ValueError
      else Inr (take (nat (stop - start)) (drop (nat start) qs)))"

text \<open>
  A numeric query parameter as \<^verbatim>\<open>int(request.GET.get(name, default))\<close> sees it: absent,
  text that \<^verbatim>\<open>int\<close> reads as a number, or text on which \<^verbatim>\<open>int\<close> raises ValueError.
  A primary key in a query parameter likewise is text that is a UUID or is not.
\<close>

datatype int_param = Missing | Num int | NotNum

datatype uuid_param = Uuid nat | NotUuid

definition int_or :: "int_param \<Rightarrow> int \<Rightarrow> error + int" where
  "int_or p d = (case p of Missing \<Rightarrow> Inr d | Num n \<Rightarrow> Inr n | NotNum \<Rightarrow> Inl ValueError)"

section \<open>Main feed (views.py, feed_view)\<close>

definition feed_view :: "nat option \<Rightarrow> int_param \<Rightarrow> int_param \<Rightarrow> db \<Rightarrow> response" where
  "feed_view request_user page_size_param offset_param s =
     (case int_or page_size_param 10 of
        Inl e \<Rightarrow> Inl e
      | Inr n \<Rightarrow>
         (let page_size = min n 20 in
          case int_or offset_param 0 of
            Inl e \<Rightarrow> Inl e
          | Inr offset \<Rightarrow>
             (let queryset = filter is_public (posts s) in
              case (case request_user of
                      None \<Rightarrow> Inr queryset
                    | Some u \<Rightarrow>
                       (case get (\<lambda>p. pref_user p = u) (preferences s) of
                          DoesNotExist \<Rightarrow> Inr queryset
                        | Multiple \<Rightarrow> Inl MultipleObjectsReturned
                        | Found prefs \<Rightarrow>
                            Inr (if \<not> show_3d_content prefs
                                 then filter (\<lambda>p. featured_3d p = False) queryset
                                 else queryset))) of
                Inl e \<Rightarrow> Inl e
              | Inr queryset \<Rightarrow>
                 (case slice offset (offset + page_size) (order_by_created queryset) of
                    Inl e \<Rightarrow> Inl e
                  | Inr page \<Rightarrow> Inr (FeedResponse page (int (length page) = page_size))))))"

section \<open>Post list and its feed modes (views.py, TravelPostListView)\<close>

record list_request =
  request_user :: "nat option"
  user_param :: "string option"
  destination_param :: "uuid_param option"
  tags_param :: "string option"
  feed_param :: "string option"

text \<open>Python's \<^verbatim>\<open>str.isspace\<close>, \<^verbatim>\<open>str.strip\<close>, \<^verbatim>\<open>str.split\<close> on code points below 256.\<close>

definition isspace :: "char \<Rightarrow> bool" where
  "isspace c =
     (let n = (of_char c :: nat)
      in (9 \<le> n \<and> n \<le> 13) \<or> (28 \<le> n \<and> n \<le> 32) \<or> n = 133 \<or> n = 160)"

definition strip :: "string \<Rightarrow> string" where
  "strip t = rev (dropWhile isspace (rev (dropWhile isspace t)))"

fun split :: "char \<Rightarrow> string \<Rightarrow> string list" where
  "split sep [] = [[]]"
| "split sep (c # cs) =
     (if c = sep then [] # split sep cs
      else (case split sep cs of [] \<Rightarrow> [[c]] | w # ws \<Rightarrow> (c # w) # ws))"

definition engagement_score :: "travel_post \<Rightarrow> nat" where
  "engagement_score p = likes_count p + comments_count p * 2 + shares_count p * 3"

text \<open>
  \<open>now\<close> is \<^verbatim>\<open>timezone.now()\<close>; 24 hours are 86400000000 microseconds. An empty
  parameter counts as absent (\<^verbatim>\<open>if username:\<close>), so \<open>destination_param\<close> is \<open>None\<close>
  for an absent or empty one.
\<close>

definition get_queryset :: "db \<Rightarrow> int \<Rightarrow> list_request \<Rightarrow> error + travel_post list" where
  "get_queryset s now req =
     (let q0 = filter is_public (posts s);
          q1 = (case user_param req of
                  None \<Rightarrow> q0
                | Some name \<Rightarrow>
                    if name = [] then q0
                    else filter (\<lambda>p. list_ex (\<lambda>u. user_pk u = user_id p \<and> username u = name)
                                        (users s)) q0)
      in case (case destination_param req of
                 None \<Rightarrow> Inr q1
               | Some NotUuid \<Rightarrow> Inl ValidationError
               | Some (Uuid d) \<Rightarrow> Inr (filter (\<lambda>p. destination_id p = d) q1)) of
           Inl e \<Rightarrow> Inl e
         | Inr q2 \<Rightarrow>
            (let q3 = (case tags_param req of
                         None \<Rightarrow> q2
                       | Some t \<Rightarrow>
                           if t = [] then q2
                           else
                            (let tag_list = map (\<lambda>tag. filter (\<lambda>c. c \<noteq> CHR ''#'') (strip tag))
                                                (split CHR '','' t)
                             in remdups
                                  [p. p \<leftarrow> q2, r \<leftarrow> tag_relations s, tr_post r = post_pk p,
                                      tg \<leftarrow> tags s, tag_pk tg = tr_tag r,
                                      tag_name tg \<in> set tag_list]));
                 feed_type = (case feed_param req of None \<Rightarrow> ''latest'' | Some f \<Rightarrow> f)
             in Inr
                 (if feed_type = ''trending'' then
                    sort_key (\<lambda>p. (- int (engagement_score p), - created_at p))
                      (filter (\<lambda>p. now - 86400000000 \<le> created_at p) q3)
                  else if feed_type = ''following'' \<and> request_user req \<noteq> None then
                    order_by_created
                      (filter (\<lambda>p. user_id p \<in> set (map following
                                 (filter (\<lambda>f. Some (follower f) = request_user req) (follows s))))
                              q3)
                  else if feed_type = ''3d'' then order_by_created (filter featured_3d q3)
                  else order_by_created q3)))"

text \<open>
  \<^verbatim>\<open>GET /posts/\<close> answers with \<^verbatim>\<open>paginate(filter_queryset(get_queryset()))\<close>. The view
  declares \<^verbatim>\<open>filter_backends = [DjangoFilterBackend, SearchFilter, OrderingFilter]\<close> and
  \<^verbatim>\<open>ordering = ['-created_at']\<close> (views.py, lines 101 to 105). For a request that carries
  none of the parameters the first two read and no \<^verbatim>\<open>ordering\<close> parameter, they pass
  the queryset through, and \<^verbatim>\<open>OrderingFilter\<close> applies the view's default:
  \<^verbatim>\<open>queryset.order_by('-created_at')\<close>, which replaces any ordering the queryset had.
  \<^verbatim>\<open>StandardResultsSetPagination\<close> then serves the first 20 rows as page 1.
\<close>

definition filter_queryset :: "travel_post list \<Rightarrow> travel_post list" where
  "filter_queryset queryset = sort_key (\<lambda>p. - created_at p) queryset"

definition list_posts :: "db \<Rightarrow> int \<Rightarrow> list_request \<Rightarrow> response" where
  "list_posts s now req =
     (case get_queryset s now req of
        Inl e \<Rightarrow> Inl e
      | Inr queryset \<Rightarrow> Inr (ListResponse (take 20 (filter_queryset queryset))))"

section \<open>Search (views.py, search_view)\<close>

text \<open>
  \<^verbatim>\<open>field__icontains=query\<close> is a substring test done by the database without regard to
  case; the letters A to Z are folded here. The second component of the result lists the
  tables the request has queried.
\<close>

definition lower :: "char \<Rightarrow> char" where
  "lower c =
     (let n = (of_char c :: nat) in if 65 \<le> n \<and> n \<le> 90 then char_of (n + 32) else c)"

fun contains :: "string \<Rightarrow> string \<Rightarrow> bool" where
  "contains [] needle = (needle = [])"
| "contains (c # hay) needle =
     (take (length needle) (c # hay) = needle \<or> contains hay needle)"

definition icontains :: "string \<Rightarrow> string \<Rightarrow> bool" where
  "icontains field query = contains (map lower field) (map lower query)"

datatype table = UserTable | DestinationTable | PostTable | TagTable

definition search_view :: "string option \<Rightarrow> db \<Rightarrow> response \<times> table list" where
  "search_view q s =
     (let query = strip (case q of None \<Rightarrow> [] | Some t \<Rightarrow> t) in
      if query = [] then (Inl (Http400 ''Query parameter required''), [])
      else
       (let found_users = take 10 (filter (\<lambda>u. icontains (username u) query
                                     \<or> icontains (first_name u) query
                                     \<or> icontains (last_name u) query) (users s));
            found_destinations = take 10 (filter (\<lambda>d. icontains (dest_name d) query
                                     \<or> icontains (country d) query
                                     \<or> icontains (city d) query) (destinations s));
            found_posts = take 10 (order_by_created (filter (\<lambda>p.
                                     (icontains (description p) query
                                      \<or> list_ex (\<lambda>u. user_pk u = user_id p
                                                  \<and> icontains (username u) query) (users s))
                                     \<and> is_public p) (posts s)));
            found_tags = take 10 (filter (\<lambda>t. icontains (tag_name t)
                                     (filter (\<lambda>c. c \<noteq> CHR ''#'') query)) (tags s))
        in (Inr (SearchResponse found_users found_destinations found_posts found_tags),
            [UserTable, DestinationTable, PostTable, TagTable])))"

text \<open>The queries of claim C8, in its own words: absent, empty, or whitespace only.\<close>

definition empty_or_whitespace :: "string option \<Rightarrow> bool" where
  "empty_or_whitespace q = (case q of None \<Rightarrow> True | Some t \<Rightarrow> list_all isspace t)"

section \<open>Sample data\<close>

definition empty_db :: db where
  "empty_db = \<lparr>users = [], destinations = [], posts = [], tags = [], tag_relations = [],
     likes = [], shares = [], views = [], follows = [], preferences = []\<rparr>"

definition account :: "nat \<Rightarrow> string \<Rightarrow> user" where
  "account k name = \<lparr>user_pk = k, username = name, first_name = [], last_name = [],
     followers_count = 0, following_count = 0\<rparr>"

definition sample_post :: "nat \<Rightarrow> int \<Rightarrow> travel_post" where
  "sample_post k t = \<lparr>post_pk = k, user_id = 1, destination_id = 1, description = ''a trip'',
     featured_3d = False, is_public = True, likes_count = 0, comments_count = 0,
     shares_count = 0, views_count = 0, created_at = t\<rparr>"

definition small_db :: db where
  "small_db = empty_db\<lparr>users := [account 1 ''alice'', account 2 ''bob''],
     posts := [sample_post 1 100]\<rparr>"

definition after_two_follows :: db where
  "after_two_follows = fst (follow_user (Some 1) 2 (fst (follow_user (Some 1) 2 small_db)))"

definition feed_db :: db where
  "feed_db = empty_db\<lparr>posts := map (\<lambda>k. sample_post k (int k)) [0..<45]\<rparr>"

definition pref_db :: db where
  "pref_db = empty_db\<lparr>users := [account 1 ''alice''],
     posts := [(sample_post 1 100)\<lparr>featured_3d := True\<rparr>, sample_post 2 90],
     preferences := [\<lparr>pref_user = 1, show_3d_content = False\<rparr>]\<rparr>"

definition plain_request :: "nat option \<Rightarrow> string option \<Rightarrow> list_request" where
  "plain_request u feed = \<lparr>request_user = u, user_param = None, destination_param = None,
     tags_param = None, feed_param = feed\<rparr>"

definition trending_db :: db where
  "trending_db = empty_db\<lparr>users := [account 1 ''alice''],
     posts := [(sample_post 1 150000000000)\<lparr>likes_count := 10\<rparr>,
               sample_post 2 160000000000]\<rparr>"

section \<open>Facts about the ORM calls\<close>

lemma get_Found_iff: "get P rows = Found r \<longleftrightarrow> filter P rows = [r]"
  by (auto simp: get_def split: list.splits)

lemma get_DoesNotExist_iff: "get P rows = DoesNotExist \<longleftrightarrow> filter P rows = []"
  by (auto simp: get_def split: list.splits)

lemma filter_single_mem: "filter P rows = [r] \<Longrightarrow> r \<in> set rows \<and> P r"
proof -
  assume "filter P rows = [r]"
  then have "r \<in> set (filter P rows)" by simp
  then show ?thesis by simp
qed

lemma length_filter_remove1:
  "r \<in> set rows \<Longrightarrow> Q r \<Longrightarrow> Suc (length (filter Q (remove1 r rows))) = length (filter Q rows)"
  by (induction rows) auto

lemma filter_remove1_other: "\<not> Q r \<Longrightarrow> filter Q (remove1 r rows) = filter Q rows"
  by (induction rows) auto

lemma filter_map_other:
  "(\<And>r. sel r \<Longrightarrow> \<not> Q r \<and> \<not> Q (upd r)) \<Longrightarrow>
   filter Q (map (\<lambda>r. if sel r then upd r else r) rows) = filter Q rows"
  by (induction rows) auto

lemma update_rows_other:
  "update_rows sel c upd d rows = Inr rows' \<Longrightarrow> (\<And>r. sel r \<Longrightarrow> \<not> Q r \<and> \<not> Q (upd r)) \<Longrightarrow>
   filter Q rows' = filter Q rows"
  by (auto simp: update_rows_def filter_map_other split: if_splits)

section \<open>The like counter follows the like rows\<close>

lemma like_post_other:
  assumes "q \<noteq> pid"
  shows "like_rows (fst (like_post u q s)) pid = like_rows s pid"
    and "filter (\<lambda>p. post_pk p = pid) (posts (fst (like_post u q s)))
         = filter (\<lambda>p. post_pk p = pid) (posts s)"
  using assms
   apply (auto simp: like_post_def get_public_post_def Let_def get_Found_iff like_rows_def
      filter_remove1_other dest!: filter_single_mem split: option.splits lookup.splits sum.splits)
   apply (erule update_rows_other; simp)+
  done

lemma like_post_same:
  assumes "likes_count_consistent s pid"
  shows "likes_count_consistent (fst (like_post u pid s)) pid"
proof (cases u)
  case None
  then show ?thesis using assms by (simp add: like_post_def)
next
  case (Some a)
  show ?thesis
  proof (cases "get_public_post s pid")
    case DoesNotExist
    then show ?thesis using assms Some by (simp add: like_post_def)
  next
    case Multiple
    then show ?thesis using assms Some by (simp add: like_post_def)
  next
    case (Found post)
    then have pk: "post_pk post = pid"
      and nonempty: "filter (\<lambda>p. post_pk p = pid) (posts s) \<noteq> []"
      by (auto simp: get_public_post_def get_Found_iff filter_empty_conv
          dest!: filter_single_mem)
    note post = Found
    show ?thesis
    proof (cases "get (\<lambda>l. pl_user l = a \<and> pl_post l = pid) (likes s)")
      case DoesNotExist
      then show ?thesis using assms Some post pk nonempty
        by (auto simp: like_post_def Let_def update_rows_def likes_count_consistent_def
            like_rows_def list_all_iff)
    next
      case Multiple
      then show ?thesis using assms Some post pk by (simp add: like_post_def)
    next
      case (Found like)
      then have mem: "like \<in> set (likes s)" and lp: "pl_post like = pid"
        by (auto simp: get_Found_iff dest!: filter_single_mem)
      have cnt: "Suc (length (filter (\<lambda>l. pl_post l = pid) (remove1 like (likes s))))
                 = like_rows s pid"
        unfolding like_rows_def using mem lp by (rule length_filter_remove1)
      show ?thesis using assms Some post Found pk nonempty cnt
        by (auto simp: like_post_def Let_def update_rows_def likes_count_consistent_def
            like_rows_def list_all_iff list_ex_iff)
    qed
  qed
qed

lemma like_post_consistent:
  "likes_count_consistent s pid \<Longrightarrow> likes_count_consistent (fst (like_post u q s)) pid"
  apply (cases "q = pid")
   apply (simp add: like_post_same)
  apply (simp add: likes_count_consistent_def like_post_other)
  done

text \<open>
  C1. Take any post \<open>pid\<close> and any database in which the \<open>likes_count\<close> of \<open>pid\<close> equals
  the number of \<open>PostLike\<close> rows that reference \<open>pid\<close>. After any finite sequence of
  \<open>like_post\<close> requests, by any users and on any posts, applied one after the other, the
  \<open>likes_count\<close> of \<open>pid\<close> still equals the number of \<open>PostLike\<close> rows that reference it.
\<close>

theorem likes_count_invariant:
  "likes_count_consistent s pid \<Longrightarrow> likes_count_consistent (like_posts reqs s) pid"
proof (induction reqs arbitrary: s)
  case Nil
  then show ?case by simp
next
  case (Cons r reqs)
  obtain u q where r: "r = (u, q)" by (cases r)
  from Cons.prems have "likes_count_consistent (fst (like_post u q s)) pid"
    by (rule like_post_consistent)
  then show ?case using Cons.IH r by simp
qed

theorem likes_count_invariant_witness:
  "likes_count_consistent small_db 1
   \<and> likes_count_consistent
       (like_posts [(Some 2, 1), (Some 1, 1), (Some 2, 1), (None, 1), (Some 1, 7)] small_db) 1"
proof -
  have h: "likes_count_consistent small_db 1"
    by (simp add: likes_count_consistent_def like_rows_def small_db_def empty_db_def
        sample_post_def)
  show ?thesis by (rule conjI [OF h likes_count_invariant [OF h]])
qed

section \<open>Toggling twice\<close>

lemma map_dec_inc:
  "(\<And>r. sel (inc r) = sel r) \<Longrightarrow> (\<And>r. sel r \<Longrightarrow> dec (inc r) = r) \<Longrightarrow>
   map (\<lambda>r. if sel r then dec r else r) (map (\<lambda>r. if sel r then inc r else r) rows) = rows"
  by (induction rows) auto

lemma filter_map_preserve:
  "(\<And>r. sel r \<Longrightarrow> Q (upd r) = Q r) \<Longrightarrow>
   filter Q (map (\<lambda>r. if sel r then upd r else r) rows)
   = map (\<lambda>r. if sel r then upd r else r) (filter Q rows)"
  by (induction rows) auto

lemma no_zero_after_inc:
  "(\<And>r. sel r \<Longrightarrow> counter (inc r) \<noteq> 0) \<Longrightarrow> (\<And>r. sel (inc r) = sel r) \<Longrightarrow>
   \<not> list_ex (\<lambda>r. sel r \<and> counter r = 0) (map (\<lambda>r. if sel r then inc r else r) rows)"
  by (induction rows) auto

lemma update_rows_inc:
  "filter sel rows \<noteq> [] \<Longrightarrow>
   update_rows sel counter upd False rows = Inr (map (\<lambda>r. if sel r then upd r else r) rows)"
  by (simp add: update_rows_def)

lemma update_rows_dec:
  "filter sel rows \<noteq> [] \<Longrightarrow> \<not> list_ex (\<lambda>r. sel r \<and> counter r = 0) rows \<Longrightarrow>
   update_rows sel counter upd True rows = Inr (map (\<lambda>r. if sel r then upd r else r) rows)"
  by (simp add: update_rows_def)

lemma get_public_post_Found:
  "get_public_post s pid = Found post \<Longrightarrow>
   post_pk post = pid \<and> is_public post \<and> filter (\<lambda>p. post_pk p = pid) (posts s) \<noteq> []"
  by (auto simp: get_public_post_def get_Found_iff filter_empty_conv dest!: filter_single_mem)

lemma like_post_create:
  assumes "get_public_post s pid = Found post"
    and "get (\<lambda>l. pl_user l = u \<and> pl_post l = pid) (likes s) = DoesNotExist"
  shows "like_post (Some u) pid s =
     (s\<lparr>likes := likes s @ [\<lparr>pl_user = u, pl_post = pid\<rparr>],
        posts := map (\<lambda>p. if post_pk p = pid then p\<lparr>likes_count := likes_count p + 1\<rparr> else p)
                   (posts s)\<rparr>, Inl TypeError)"
proof -
  from assms(1) have pk: "post_pk post = pid"
    and ne: "filter (\<lambda>p. post_pk p = pid) (posts s) \<noteq> []"
    by (simp_all add: get_public_post_Found)
  show ?thesis
    unfolding like_post_def using assms pk by (simp add: update_rows_inc [OF ne])
qed

lemma like_post_delete:
  assumes "get_public_post s pid = Found post"
    and "get (\<lambda>l. pl_user l = u \<and> pl_post l = pid) (likes s) = Found like"
    and "\<not> list_ex (\<lambda>p. post_pk p = pid \<and> likes_count p = 0) (posts s)"
  shows "like_post (Some u) pid s =
     (s\<lparr>likes := remove1 like (likes s),
        posts := map (\<lambda>p. if post_pk p = pid then p\<lparr>likes_count := likes_count p - 1\<rparr> else p)
                   (posts s)\<rparr>, Inl TypeError)"
proof -
  from assms(1) have pk: "post_pk post = pid"
    and ne: "filter (\<lambda>p. post_pk p = pid) (posts s) \<noteq> []"
    by (simp_all add: get_public_post_Found)
  show ?thesis
    unfolding like_post_def using assms(1,2) pk
    by (simp add: update_rows_dec [OF ne assms(3)])
qed


lemma like_post_twice:
  assumes absent: "get (\<lambda>l. pl_user l = u \<and> pl_post l = pid) (likes s) = DoesNotExist"
  shows "fst (like_post (Some u) pid (fst (like_post (Some u) pid s))) = s"
proof (cases "get_public_post s pid")
  case DoesNotExist
  then show ?thesis by (simp add: like_post_def)
next
  case Multiple
  then show ?thesis by (simp add: like_post_def)
next
  case (Found post)
  let ?row = "\<lparr>pl_user = u, pl_post = pid\<rparr>"
  let ?inc = "\<lambda>p. p\<lparr>likes_count := likes_count p + 1\<rparr>"
  let ?dec = "\<lambda>p. p\<lparr>likes_count := likes_count p - 1\<rparr>"
  let ?sel = "\<lambda>p. post_pk p = pid"
  let ?ps1 = "map (\<lambda>r. if ?sel r then ?inc r else r) (posts s)"
  let ?s1 = "s\<lparr>likes := likes s @ [?row], posts := ?ps1\<rparr>"
  have first: "like_post (Some u) pid s = (?s1, Inl TypeError)"
    using Found absent by (rule like_post_create)
  have f: "filter (\<lambda>p. post_pk p = pid \<and> is_public p) (posts s) = [post]"
    using Found by (simp add: get_public_post_def get_Found_iff)
  have none: "filter (\<lambda>l. pl_user l = u \<and> pl_post l = pid) (likes s) = []"
    using absent by (simp add: get_DoesNotExist_iff)
  have notin: "?row \<notin> set (likes s)"
    using none by (auto simp: filter_empty_conv)
  have pk: "post_pk post = pid"
    using Found by (simp add: get_public_post_Found)
  have "filter (\<lambda>p. post_pk p = pid \<and> is_public p) ?ps1 = [?inc post]"
    using f pk by (simp add: filter_map_preserve)
  then have g1: "get_public_post ?s1 pid = Found (?inc post)"
    by (simp add: get_public_post_def get_Found_iff)
  have l1: "get (\<lambda>l. pl_user l = u \<and> pl_post l = pid) (likes ?s1) = Found ?row"
    using none by (simp add: get_Found_iff)
  have nz: "\<not> list_ex (\<lambda>r. ?sel r \<and> likes_count r = 0) (posts ?s1)"
    using no_zero_after_inc [of ?sel likes_count ?inc "posts s"] by simp
  have restore: "map (\<lambda>r. if ?sel r then ?dec r else r) ?ps1 = posts s"
    by (rule map_dec_inc) simp_all
  have "like_post (Some u) pid ?s1 =
      ((?s1)\<lparr>likes := remove1 ?row (likes ?s1),
           posts := map (\<lambda>r. if ?sel r then ?dec r else r) (posts ?s1)\<rparr>,
       Inl TypeError)"
    using g1 l1 nz by (rule like_post_delete)
  then have second: "fst (like_post (Some u) pid ?s1) = s"
    using restore notin by (simp add: remove1_append)
  show ?thesis using first second by simp
qed

lemma get_user_Found:
  "get (\<lambda>u. user_pk u = uid) (users s) = Found t \<Longrightarrow>
   user_pk t = uid \<and> filter (\<lambda>u. user_pk u = uid) (users s) \<noteq> []"
  by (auto simp: get_Found_iff filter_empty_conv dest!: filter_single_mem)

lemma follow_user_Found:
  assumes "get (\<lambda>u. user_pk u = uid) (users s) = Found t" and "uid \<noteq> a"
  shows "follow_user (Some a) uid s =
     (case get (\<lambda>f. follower f = a \<and> following f = uid) (follows s) of
                 Multiple \<Rightarrow> (s, Inl MultipleObjectsReturned)
               | DoesNotExist \<Rightarrow>
                  (let s1 = s\<lparr>follows := follows s @
                              [\<lparr>follower = a, following = uid\<rparr>]\<rparr> in
                   case update_rows (\<lambda>u. user_pk u = uid) followers_count
                          (\<lambda>u. u\<lparr>followers_count := followers_count u + 1\<rparr>) False (users s1) of
                     Inl e \<Rightarrow> (s1, Inl e)
                   | Inr us \<Rightarrow>
                      (let s2 = s1\<lparr>users := us\<rparr> in
                       case update_rows (\<lambda>u. user_pk u = a) following_count
                              (\<lambda>u. u\<lparr>following_count := following_count u + 1\<rparr>) False (users s2) of
                         Inl e \<Rightarrow> (s2, Inl e)
                       | Inr us' \<Rightarrow> (s2\<lparr>users := us'\<rparr>, Inr (FollowResponse True))))
               | Found follow \<Rightarrow>
                  (let s1 = s\<lparr>follows := remove1 follow (follows s)\<rparr> in
                   case update_rows (\<lambda>u. user_pk u = uid) followers_count
                          (\<lambda>u. u\<lparr>followers_count := followers_count u - 1\<rparr>) True (users s1) of
                     Inl e \<Rightarrow> (s1, Inl e)
                   | Inr us \<Rightarrow>
                      (let s2 = s1\<lparr>users := us\<rparr> in
                       case update_rows (\<lambda>u. user_pk u = a) following_count
                              (\<lambda>u. u\<lparr>following_count := following_count u - 1\<rparr>) True (users s2) of
                         Inl e \<Rightarrow> (s2, Inl e)
                       | Inr us' \<Rightarrow> (s2\<lparr>users := us'\<rparr>, Inr (FollowResponse False)))))"
proof -
  from assms(1) have pk: "user_pk t = uid" by (rule get_user_Found [THEN conjunct1])
  show ?thesis
    unfolding follow_user_def using assms pk by (simp cong: lookup.case_cong)
qed


lemma list_ex_map_preserve:
  "(\<And>r. sel r \<Longrightarrow> P (upd r) = P r) \<Longrightarrow>
   list_ex P (map (\<lambda>r. if sel r then upd r else r) rows) = list_ex P rows"
  by (induction rows) auto

lemma follow_user_create:
  assumes "get (\<lambda>u. user_pk u = uid) (users s) = Found t" and "uid \<noteq> a"
    and "get (\<lambda>f. follower f = a \<and> following f = uid) (follows s) = DoesNotExist"
  shows "follow_user (Some a) uid s =
     (if filter (\<lambda>u. user_pk u = a) (users s) = []
      then (s\<lparr>follows := follows s @ [\<lparr>follower = a, following = uid\<rparr>],
              users := map (\<lambda>u. if user_pk u = uid
                       then u\<lparr>followers_count := followers_count u + 1\<rparr> else u) (users s)\<rparr>,
            Inl DatabaseError)
      else (s\<lparr>follows := follows s @ [\<lparr>follower = a, following = uid\<rparr>],
              users := map (\<lambda>u. if user_pk u = a
                         then u\<lparr>following_count := following_count u + 1\<rparr> else u)
                       (map (\<lambda>u. if user_pk u = uid
                         then u\<lparr>followers_count := followers_count u + 1\<rparr> else u) (users s))\<rparr>,
            Inr (FollowResponse True)))"
proof -
  from assms(1) have ne: "filter (\<lambda>u. user_pk u = uid) (users s) \<noteq> []"
    by (rule get_user_Found [THEN conjunct2])
  show ?thesis
    using assms(3) ne
    by (simp add: follow_user_Found [OF assms(1,2)] Let_def update_rows_def
        filter_map_preserve)
qed

lemma follow_user_delete:
  assumes "get (\<lambda>u. user_pk u = uid) (users s) = Found t" and "uid \<noteq> a"
    and "get (\<lambda>f. follower f = a \<and> following f = uid) (follows s) = Found row"
    and "\<not> list_ex (\<lambda>u. user_pk u = uid \<and> followers_count u = 0) (users s)"
    and "\<not> list_ex (\<lambda>u. user_pk u = a \<and> following_count u = 0) (users s)"
  shows "follow_user (Some a) uid s =
     (if filter (\<lambda>u. user_pk u = a) (users s) = []
      then (s\<lparr>follows := remove1 row (follows s),
              users := map (\<lambda>u. if user_pk u = uid
                       then u\<lparr>followers_count := followers_count u - 1\<rparr> else u) (users s)\<rparr>,
            Inl DatabaseError)
      else (s\<lparr>follows := remove1 row (follows s),
              users := map (\<lambda>u. if user_pk u = a
                         then u\<lparr>following_count := following_count u - 1\<rparr> else u)
                       (map (\<lambda>u. if user_pk u = uid
                         then u\<lparr>followers_count := followers_count u - 1\<rparr> else u) (users s))\<rparr>,
            Inr (FollowResponse False)))"
proof -
  from assms(1) have ne: "filter (\<lambda>u. user_pk u = uid) (users s) \<noteq> []"
    by (rule get_user_Found [THEN conjunct2])
  show ?thesis
    using assms(3,4,5) ne
    by (simp add: follow_user_Found [OF assms(1,2)] Let_def update_rows_def
        filter_map_preserve list_ex_map_preserve)
qed


lemma list_ex_no_rows: "filter sel rows = [] \<Longrightarrow> \<not> list_ex (\<lambda>r. sel r \<and> P r) rows"
  by (auto simp: list_ex_iff filter_empty_conv)

lemma users_restore:
  "uid \<noteq> a \<Longrightarrow>
   map (\<lambda>u. if user_pk u = a then u\<lparr>following_count := following_count u - 1\<rparr> else u)
    (map (\<lambda>u. if user_pk u = uid then u\<lparr>followers_count := followers_count u - 1\<rparr> else u)
      (map (\<lambda>u. if user_pk u = a then u\<lparr>following_count := following_count u + 1\<rparr> else u)
        (map (\<lambda>u. if user_pk u = uid then u\<lparr>followers_count := followers_count u + 1\<rparr> else u)
          us))) = us"
  by (induction us) auto

lemma follow_user_twice:
  assumes absent: "get (\<lambda>f. follower f = a \<and> following f = uid) (follows s) = DoesNotExist"
  shows "fst (follow_user (Some a) uid (fst (follow_user (Some a) uid s))) = s"
proof (cases "get (\<lambda>u. user_pk u = uid) (users s)")
  case DoesNotExist
  then show ?thesis by (simp add: follow_user_def)
next
  case Multiple
  then show ?thesis by (simp add: follow_user_def)
next
  case (Found t)
  then have pk: "user_pk t = uid" by (rule get_user_Found [THEN conjunct1])
  show ?thesis
  proof (cases "uid = a")
    case True
    then show ?thesis using Found pk by (simp add: follow_user_def)
  next
    case False
    let ?row = "\<lparr>follower = a, following = uid\<rparr>"
    let ?incF = "\<lambda>u. if user_pk u = uid then u\<lparr>followers_count := followers_count u + 1\<rparr> else u"
    let ?incG = "\<lambda>u. if user_pk u = a then u\<lparr>following_count := following_count u + 1\<rparr> else u"
    let ?decF = "\<lambda>u. if user_pk u = uid then u\<lparr>followers_count := followers_count u - 1\<rparr> else u"
    let ?decG = "\<lambda>u. if user_pk u = a then u\<lparr>following_count := following_count u - 1\<rparr> else u"
    have f: "filter (\<lambda>u. user_pk u = uid) (users s) = [t]"
      using Found by (simp add: get_Found_iff)
    have none: "filter (\<lambda>f. follower f = a \<and> following f = uid) (follows s) = []"
      using absent by (simp add: get_DoesNotExist_iff)
    have notin: "?row \<notin> set (follows s)"
      using none by (auto simp: filter_empty_conv)
    have nzF: "\<not> list_ex (\<lambda>u. user_pk u = uid \<and> followers_count u = 0) (map ?incF (users s))"
      by (rule no_zero_after_inc) simp_all
    show ?thesis
    proof (cases "filter (\<lambda>u. user_pk u = a) (users s) = []")
      case True
      let ?s1 = "s\<lparr>follows := follows s @ [?row], users := map ?incF (users s)\<rparr>"
      have first: "fst (follow_user (Some a) uid s) = ?s1"
        using True by (simp add: follow_user_create [OF Found False absent])
      have t1: "get (\<lambda>u. user_pk u = uid) (users ?s1) = Found (?incF t)"
        using f by (simp add: get_Found_iff filter_map_preserve)
      have r1: "get (\<lambda>f. follower f = a \<and> following f = uid) (follows ?s1) = Found ?row"
        using none by (simp add: get_Found_iff)
      have z1: "\<not> list_ex (\<lambda>u. user_pk u = uid \<and> followers_count u = 0) (users ?s1)"
        using nzF by simp
      have e1: "filter (\<lambda>u. user_pk u = a) (users ?s1) = []"
        using True by (simp add: filter_map_preserve)
      have z2: "\<not> list_ex (\<lambda>u. user_pk u = a \<and> following_count u = 0) (users ?s1)"
        using e1 by (rule list_ex_no_rows)
      have restore: "map ?decF (map ?incF (users s)) = users s"
        by (rule map_dec_inc) simp_all
      have "fst (follow_user (Some a) uid ?s1) = s"
        using e1 restore notin
        by (simp add: follow_user_delete [OF t1 False r1 z1 z2] remove1_append)
      then show ?thesis using first by simp
    next
      case ne: False
      let ?s1 = "s\<lparr>follows := follows s @ [?row], users := map ?incG (map ?incF (users s))\<rparr>"
      have first: "fst (follow_user (Some a) uid s) = ?s1"
        using ne by (simp add: follow_user_create [OF Found False absent])
      have "filter (\<lambda>u. user_pk u = uid) (map ?incG (map ?incF (users s))) = [?incG (?incF t)]"
        using f by (simp add: filter_map_preserve del: map_map)
      then have t1: "get (\<lambda>u. user_pk u = uid) (users ?s1) = Found (?incG (?incF t))"
        by (simp add: get_Found_iff del: map_map)
      have r1: "get (\<lambda>f. follower f = a \<and> following f = uid) (follows ?s1) = Found ?row"
        using none by (simp add: get_Found_iff)
      have z1: "\<not> list_ex (\<lambda>u. user_pk u = uid \<and> followers_count u = 0) (users ?s1)"
        using nzF by (simp add: list_ex_map_preserve del: map_map)
      have "\<not> list_ex (\<lambda>u. user_pk u = a \<and> following_count u = 0)
               (map ?incG (map ?incF (users s)))"
        by (rule no_zero_after_inc) simp_all
      then have z2: "\<not> list_ex (\<lambda>u. user_pk u = a \<and> following_count u = 0) (users ?s1)"
        by (simp del: map_map)
      have e1: "filter (\<lambda>u. user_pk u = a) (users ?s1) \<noteq> []"
        using ne by (simp add: filter_map_preserve del: map_map)
      have restore: "map ?decG (map ?decF (map ?incG (map ?incF (users s)))) = users s"
        using False by (rule users_restore)
      have "fst (follow_user (Some a) uid ?s1) = s"
        using e1 restore notin
        by (simp add: follow_user_delete [OF t1 False r1 z1 z2] remove1_append del: map_map)
      then show ?thesis using first by simp
    qed
  qed
qed

text \<open>
  C2. Take any user \<open>u\<close> and post \<open>pid\<close> with no \<open>PostLike\<close> row for \<open>(u, pid)\<close>, and
  any accounts \<open>a\<close> and \<open>uid\<close> with no \<open>UserFollow\<close> row for \<open>(a, uid)\<close>. Two
  \<open>like_post\<close> requests of \<open>u\<close> on \<open>pid\<close> in succession give back the database they
  started from: the like is absent again and every counter has its old value. So do two
  \<open>follow_user\<close> requests of \<open>a\<close> on \<open>uid\<close>, for \<open>followers_count\<close> and
  \<open>following_count\<close>. When the target exists (a public post; another account, the actor
  having a row), the database in between holds the new row and the incremented counters.
\<close>

theorem toggle_twice_restores:
  "(get (\<lambda>l. pl_user l = u \<and> pl_post l = pid) (likes s) = DoesNotExist \<longrightarrow>
      fst (like_post (Some u) pid (fst (like_post (Some u) pid s))) = s
      \<and> (get_public_post s pid = Found post \<longrightarrow>
           fst (like_post (Some u) pid s) =
             s\<lparr>likes := likes s @ [\<lparr>pl_user = u, pl_post = pid\<rparr>],
                posts := map (\<lambda>p. if post_pk p = pid
                                    then p\<lparr>likes_count := likes_count p + 1\<rparr> else p)
                           (posts s)\<rparr>))
   \<and> (get (\<lambda>f. follower f = a \<and> following f = uid) (follows s) = DoesNotExist \<longrightarrow>
      fst (follow_user (Some a) uid (fst (follow_user (Some a) uid s))) = s
      \<and> (get (\<lambda>x. user_pk x = uid) (users s) = Found t \<and> uid \<noteq> a
           \<and> filter (\<lambda>x. user_pk x = a) (users s) \<noteq> [] \<longrightarrow>
           fst (follow_user (Some a) uid s) =
             s\<lparr>follows := follows s @ [\<lparr>follower = a, following = uid\<rparr>],
                users := map (\<lambda>x. if user_pk x = a
                                    then x\<lparr>following_count := following_count x + 1\<rparr> else x)
                          (map (\<lambda>x. if user_pk x = uid
                                    then x\<lparr>followers_count := followers_count x + 1\<rparr> else x)
                            (users s))\<rparr>))"
  by (simp add: like_post_twice follow_user_twice like_post_create follow_user_create
      del: map_map)

theorem toggle_twice_restores_witness:
  "get (\<lambda>l. pl_user l = 2 \<and> pl_post l = 1) (likes small_db) = DoesNotExist
   \<and> get_public_post small_db 1 = Found (sample_post 1 100)
   \<and> fst (like_post (Some 2) 1 (fst (like_post (Some 2) 1 small_db))) = small_db
   \<and> get (\<lambda>f. follower f = 1 \<and> following f = 2) (follows small_db) = DoesNotExist
   \<and> get (\<lambda>x. user_pk x = 2) (users small_db) = Found (account 2 ''bob'')
   \<and> fst (follow_user (Some 1) 2 (fst (follow_user (Some 1) 2 small_db))) = small_db"
proof -
  have l: "get (\<lambda>l. pl_user l = 2 \<and> pl_post l = 1) (likes small_db) = DoesNotExist"
    by (simp add: get_def small_db_def empty_db_def)
  have p: "get_public_post small_db 1 = Found (sample_post 1 100)"
    by (simp add: get_public_post_def get_def small_db_def empty_db_def sample_post_def)
  have f: "get (\<lambda>f. follower f = 1 \<and> following f = 2) (follows small_db) = DoesNotExist"
    by (simp add: get_def small_db_def empty_db_def)
  have t: "get (\<lambda>x. user_pk x = 2) (users small_db) = Found (account 2 ''bob'')"
    by (simp add: get_def small_db_def empty_db_def account_def)
  show ?thesis
    using l p f t
      toggle_twice_restores [of 2 1 small_db "sample_post 1 100" 1 2 "account 2 ''bob''"]
    by blast
qed

section \<open>Following twice, following oneself\<close>

lemma follow_user_undo:
  assumes absent: "get (\<lambda>f. follower f = a \<and> following f = uid) (follows s) = DoesNotExist"
    and target: "get (\<lambda>u. user_pk u = uid) (users s) = Found t"
    and other: "uid \<noteq> a"
    and actor: "filter (\<lambda>u. user_pk u = a) (users s) \<noteq> []"
  shows "follow_user (Some a) uid
           (s\<lparr>follows := follows s @ [\<lparr>follower = a, following = uid\<rparr>],
              users := map (\<lambda>u. if user_pk u = a
                         then u\<lparr>following_count := following_count u + 1\<rparr> else u)
                       (map (\<lambda>u. if user_pk u = uid
                         then u\<lparr>followers_count := followers_count u + 1\<rparr> else u) (users s))\<rparr>)
         = (s, Inr (FollowResponse False))"
proof -
  let ?row = "\<lparr>follower = a, following = uid\<rparr>"
  let ?incF = "\<lambda>u. if user_pk u = uid then u\<lparr>followers_count := followers_count u + 1\<rparr> else u"
  let ?incG = "\<lambda>u. if user_pk u = a then u\<lparr>following_count := following_count u + 1\<rparr> else u"
  let ?decF = "\<lambda>u. if user_pk u = uid then u\<lparr>followers_count := followers_count u - 1\<rparr> else u"
  let ?decG = "\<lambda>u. if user_pk u = a then u\<lparr>following_count := following_count u - 1\<rparr> else u"
  let ?s1 = "s\<lparr>follows := follows s @ [?row], users := map ?incG (map ?incF (users s))\<rparr>"
  have f: "filter (\<lambda>u. user_pk u = uid) (users s) = [t]"
    using target by (simp add: get_Found_iff)
  have none: "filter (\<lambda>f. follower f = a \<and> following f = uid) (follows s) = []"
    using absent by (simp add: get_DoesNotExist_iff)
  have notin: "?row \<notin> set (follows s)"
    using none by (auto simp: filter_empty_conv)
  have nzF: "\<not> list_ex (\<lambda>u. user_pk u = uid \<and> followers_count u = 0) (map ?incF (users s))"
    by (rule no_zero_after_inc) simp_all
  have "filter (\<lambda>u. user_pk u = uid) (map ?incG (map ?incF (users s))) = [?incG (?incF t)]"
    using f by (simp add: filter_map_preserve del: map_map)
  then have t1: "get (\<lambda>u. user_pk u = uid) (users ?s1) = Found (?incG (?incF t))"
    by (simp add: get_Found_iff del: map_map)
  have r1: "get (\<lambda>f. follower f = a \<and> following f = uid) (follows ?s1) = Found ?row"
    using none by (simp add: get_Found_iff)
  have z1: "\<not> list_ex (\<lambda>u. user_pk u = uid \<and> followers_count u = 0) (users ?s1)"
    using nzF by (simp add: list_ex_map_preserve del: map_map)
  have "\<not> list_ex (\<lambda>u. user_pk u = a \<and> following_count u = 0)
           (map ?incG (map ?incF (users s)))"
    by (rule no_zero_after_inc) simp_all
  then have z2: "\<not> list_ex (\<lambda>u. user_pk u = a \<and> following_count u = 0) (users ?s1)"
    by (simp del: map_map)
  have e1: "filter (\<lambda>u. user_pk u = a) (users ?s1) \<noteq> []"
    using actor by (simp add: filter_map_preserve del: map_map)
  have restore: "map ?decG (map ?decF (map ?incG (map ?incF (users s)))) = users s"
    using other by (rule users_restore)
  show ?thesis
    using e1 restore notin
    by (simp add: follow_user_delete [OF t1 other r1 z1 z2] remove1_append del: map_map)
qed

lemma follow_rows_0: 
  "follow_rows s a b = 0 \<longleftrightarrow> get (\<lambda>f. follower f = a \<and> following f = b) (follows s) = DoesNotExist"
  by (simp add: follow_rows_def get_DoesNotExist_iff)

text \<open>
  C4 (as the code has it). Let \<open>a\<close> and \<open>b\<close> be distinct accounts, \<open>a\<close> not following
  \<open>b\<close>. The first \<open>follow_user\<close> request of \<open>a\<close> on \<open>b\<close> answers \<open>following: True\<close>,
  creates the one \<open>UserFollow\<close> row for \<open>(a, b)\<close> and adds one to the \<open>followers_count\<close>
  of \<open>b\<close>. The same request again is an unfollow: it answers \<open>following: False\<close> and
  leaves the database as it was before the first, with no row for \<open>(a, b)\<close> and the
  \<open>followers_count\<close> of \<open>b\<close> at its initial value.
\<close>

theorem follow_twice_unfollows:
  assumes A: "get (\<lambda>x. user_pk x = a) (users s) = Found ua"
    and B: "get (\<lambda>x. user_pk x = b) (users s) = Found ub"
    and distinct: "a \<noteq> b"
    and absent: "follow_rows s a b = 0"
  shows "snd (follow_user (Some a) b s) = Inr (FollowResponse True)
    \<and> follow_rows (fst (follow_user (Some a) b s)) a b = 1
    \<and> get (\<lambda>x. user_pk x = b) (users (fst (follow_user (Some a) b s)))
        = Found (ub\<lparr>followers_count := followers_count ub + 1\<rparr>)
    \<and> follow_user (Some a) b (fst (follow_user (Some a) b s)) = (s, Inr (FollowResponse False))"
proof -
  let ?incF = "\<lambda>u. if user_pk u = b then u\<lparr>followers_count := followers_count u + 1\<rparr> else u"
  let ?incG = "\<lambda>u. if user_pk u = a then u\<lparr>following_count := following_count u + 1\<rparr> else u"
  let ?s1 = "s\<lparr>follows := follows s @ [\<lparr>follower = a, following = b\<rparr>],
               users := map ?incG (map ?incF (users s))\<rparr>"
  have none: "get (\<lambda>f. follower f = a \<and> following f = b) (follows s) = DoesNotExist"
    using absent by (simp add: follow_rows_0)
  have actor: "filter (\<lambda>u. user_pk u = a) (users s) \<noteq> []"
    using A by (rule get_user_Found [THEN conjunct2])
  have pkb: "user_pk ub = b"
    using B by (rule get_user_Found [THEN conjunct1])
  have ne: "b \<noteq> a" using distinct by simp
  have first: "follow_user (Some a) b s = (?s1, Inr (FollowResponse True))"
    using actor by (simp add: follow_user_create [OF B ne none] del: map_map)
  have rows: "follow_rows ?s1 a b = 1"
    using absent by (simp add: follow_rows_def)
  have fb: "filter (\<lambda>u. user_pk u = b) (users s) = [ub]"
    using B by (simp add: get_Found_iff)
  have "filter (\<lambda>u. user_pk u = b) (map ?incG (map ?incF (users s))) = [?incG (?incF ub)]"
    using fb by (simp add: filter_map_preserve del: map_map)
  then have cnt: "get (\<lambda>x. user_pk x = b) (users ?s1)
      = Found (ub\<lparr>followers_count := followers_count ub + 1\<rparr>)"
    using pkb ne by (simp add: get_Found_iff del: map_map)
  have second: "follow_user (Some a) b ?s1 = (s, Inr (FollowResponse False))"
    using none B ne actor by (rule follow_user_undo)
  show ?thesis
    unfolding first using rows cnt second by (simp del: map_map)
qed

theorem follow_twice_unfollows_witness:
  "get (\<lambda>x. user_pk x = 1) (users small_db) = Found (account 1 ''alice'')
   \<and> get (\<lambda>x. user_pk x = 2) (users small_db) = Found (account 2 ''bob'')
   \<and> follow_rows small_db 1 2 = 0
   \<and> snd (follow_user (Some 1) 2 small_db) = Inr (FollowResponse True)
   \<and> follow_rows (fst (follow_user (Some 1) 2 small_db)) 1 2 = 1
   \<and> follow_user (Some 1) 2 (fst (follow_user (Some 1) 2 small_db))
       = (small_db, Inr (FollowResponse False))"
proof -
  have A: "get (\<lambda>x. user_pk x = 1) (users small_db) = Found (account 1 ''alice'')"
    by (simp add: get_def small_db_def empty_db_def account_def)
  have B: "get (\<lambda>x. user_pk x = 2) (users small_db) = Found (account 2 ''bob'')"
    by (simp add: get_def small_db_def empty_db_def account_def)
  have d: "(1::nat) \<noteq> 2" by simp
  have r: "follow_rows small_db 1 2 = 0"
    by (simp add: follow_rows_def small_db_def empty_db_def)
  show ?thesis using A B r follow_twice_unfollows [OF A B d r] by blast
qed

text \<open>
  C4 as the spec states it fails: in the sample database, where account 1 does not follow
  account 2 and account 2 has no followers, two follow requests of 1 on 2 leave no row for
  \<open>(1, 2)\<close>, not one, and the \<open>followers_count\<close> of account 2 at 0, not 1.
\<close>

theorem follow_twice_counterexample:
  "follow_rows small_db 1 2 = 0
   \<and> map followers_count (filter (\<lambda>x. user_pk x = 2) (users small_db)) = [0]
   \<and> follow_rows after_two_follows 1 2 = 0
   \<and> map followers_count (filter (\<lambda>x. user_pk x = 2) (users after_two_follows)) = [0]"
  by (simp add: after_two_follows_def small_db_def empty_db_def account_def follow_user_def get_def update_rows_def
      follow_rows_def Let_def)

text \<open>
  C6. A \<open>follow_user\<close> request whose target is the requesting account itself never changes
  the database, whatever the follow rows and counters were; and when \<open>x\<close> is an account,
  the answer is the 400 response \<open>Cannot follow yourself\<close>, returned before
  \<^verbatim>\<open>get_or_create\<close> is reached.
\<close>

theorem self_follow_rejected:
  "fst (follow_user (Some x) x s) = s
   \<and> (get (\<lambda>u. user_pk u = x) (users s) = Found acct \<longrightarrow>
        follow_user (Some x) x s = (s, Inl (Http400 ''Cannot follow yourself'')))"
proof (cases "get (\<lambda>u. user_pk u = x) (users s)")
  case DoesNotExist
  then show ?thesis by (simp add: follow_user_def)
next
  case Multiple
  then show ?thesis by (simp add: follow_user_def)
next
  case (Found t)
  then have "user_pk t = x" by (rule get_user_Found [THEN conjunct1])
  then show ?thesis using Found by (auto simp: follow_user_def)
qed

theorem self_follow_rejected_witness:
  "get (\<lambda>u. user_pk u = 1) (users small_db) = Found (account 1 ''alice'')
   \<and> follow_user (Some 1) 1 small_db = (small_db, Inl (Http400 ''Cannot follow yourself''))"
proof -
  have A: "get (\<lambda>u. user_pk u = 1) (users small_db) = Found (account 1 ''alice'')"
    by (simp add: get_def small_db_def empty_db_def account_def)
  show ?thesis
    using A self_follow_rejected [of 1 small_db "account 1 ''alice''"] by blast
qed

section \<open>Shares and views accumulate\<close>

lemma get_public_post_update:
  assumes "get_public_post s pid = Found post"
    and "\<And>p. post_pk (upd p) = post_pk p \<and> is_public (upd p) = is_public p"
  shows "get_public_post
           (s\<lparr>posts := map (\<lambda>p. if post_pk p = pid then upd p else p) (posts s)\<rparr>) pid
         = Found (upd post)"
proof -
  from assms(1) have f: "filter (\<lambda>p. post_pk p = pid \<and> is_public p) (posts s) = [post]"
    by (simp add: get_public_post_def get_Found_iff)
  from assms(1) have pk: "post_pk post = pid"
    by (rule get_public_post_Found [THEN conjunct1])
  have "filter (\<lambda>p. post_pk p = pid \<and> is_public p)
          (map (\<lambda>p. if post_pk p = pid then upd p else p) (posts s))
        = map (\<lambda>p. if post_pk p = pid then upd p else p)
            (filter (\<lambda>p. post_pk p = pid \<and> is_public p) (posts s))"
    by (rule filter_map_preserve) (simp add: assms(2))
  then show ?thesis using f pk by (simp add: get_public_post_def get_Found_iff)
qed






lemma get_object_anonymous:
  assumes "get_public_post s pk = Found obj"
  shows "get_object None pk s =
     (s\<lparr>views := views s @ [\<lparr>pv_user = None, pv_post = pk\<rparr>],
        posts := map (\<lambda>p. if post_pk p = pk then p\<lparr>views_count := views_count p + 1\<rparr> else p)
                   (posts s)\<rparr>, Inl TypeError)"
proof -
  from assms have pk: "post_pk obj = pk"
    and ne: "filter (\<lambda>p. post_pk p = pk) (posts s) \<noteq> []"
    by (simp_all add: get_public_post_Found [OF assms])
  show ?thesis
    unfolding get_object_def using assms pk by (simp add: update_rows_inc [OF ne] Let_def)
qed

lemma get_object_first_view:
  assumes "get_public_post s pk = Found obj" and "user_view_rows s u pk = 0"
  shows "get_object (Some u) pk s =
     (s\<lparr>views := views s @ [\<lparr>pv_user = Some u, pv_post = pk\<rparr>],
        posts := map (\<lambda>p. if post_pk p = pk then p\<lparr>views_count := views_count p + 1\<rparr> else p)
                   (posts s)\<rparr>, Inl TypeError)"
proof -
  from assms(1) have pk: "post_pk obj = pk"
    and ne: "filter (\<lambda>p. post_pk p = pk) (posts s) \<noteq> []"
    by (simp_all add: get_public_post_Found [OF assms(1)])
  have none: "get (\<lambda>v. pv_user v = Some u \<and> pv_post v = pk) (views s) = DoesNotExist"
    using assms(2) by (simp add: user_view_rows_def get_DoesNotExist_iff)
  show ?thesis
    unfolding get_object_def using assms(1) pk none
    by (simp add: update_rows_inc [OF ne] Let_def)
qed

lemma get_object_repeat_view:
  assumes "get_public_post s pk = Found obj" and "user_view_rows s u pk = 1"
  shows "get_object (Some u) pk s =
     (s\<lparr>posts := map (\<lambda>p. if post_pk p = pk then p\<lparr>views_count := views_count p + 1\<rparr> else p)
                   (posts s)\<rparr>, Inl TypeError)"
proof -
  from assms(1) have pk: "post_pk obj = pk"
    and ne: "filter (\<lambda>p. post_pk p = pk) (posts s) \<noteq> []"
    by (simp_all add: get_public_post_Found [OF assms(1)])
  from assms(2) obtain v where "filter (\<lambda>v. pv_user v = Some u \<and> pv_post v = pk) (views s) = [v]"
    by (auto simp: user_view_rows_def length_Suc_conv)
  then have one: "get (\<lambda>v. pv_user v = Some u \<and> pv_post v = pk) (views s) = Found v"
    by (simp add: get_Found_iff)
  show ?thesis
    unfolding get_object_def using assms(1) pk one
    by (simp add: update_rows_inc [OF ne] Let_def)
qed

lemma get_object_step:
  assumes found: "get_public_post s pk = Found obj" and rows: "user_view_rows s u pk \<le> 1"
  shows "get_public_post (fst (get_object (Some u) pk s)) pk
           = Found (obj\<lparr>views_count := views_count obj + 1\<rparr>)
       \<and> user_view_rows (fst (get_object (Some u) pk s)) u pk = 1
       \<and> view_rows (fst (get_object (Some u) pk s)) pk
           = view_rows s pk + (if user_view_rows s u pk = 0 then 1 else 0)"
proof -
  have upd: "get_public_post
      (s\<lparr>posts := map (\<lambda>p. if post_pk p = pk then p\<lparr>views_count := views_count p + 1\<rparr> else p)
                   (posts s)\<rparr>) pk = Found (obj\<lparr>views_count := views_count obj + 1\<rparr>)"
    using found by (rule get_public_post_update) simp
  show ?thesis
  proof (cases "user_view_rows s u pk = 0")
    case True
    show ?thesis
      using upd True
      by (simp add: get_object_first_view [OF found True] get_public_post_def
          user_view_rows_def view_rows_def)
  next
    case False
    then have one: "user_view_rows s u pk = 1" using rows by simp
    show ?thesis
      using upd one
      by (simp add: get_object_repeat_view [OF found one] get_public_post_def
          user_view_rows_def view_rows_def)
  qed
qed

text \<open>
  C10. Let \<open>pk\<close> be a public post and \<open>u\<close> an authenticated user with at most one
  \<open>PostView\<close> row for \<open>(u, pk)\<close>. After \<open>n\<close> retrievals of the post's detail by \<open>u\<close>, its
  \<open>views_count\<close> has grown by exactly \<open>n\<close>, there is one row for \<open>(u, pk)\<close> (as soon as
  \<open>n > 0\<close>), and the number of \<open>PostView\<close> rows of the post has grown by one if \<open>u\<close> had
  none and \<open>n > 0\<close>, and not at all otherwise: repeat retrievals create no row. So
  \<open>views_count\<close> outruns the rows from the second retrieval on. An anonymous retrieval
  leaves the database with \<open>views_count\<close> one higher too, and with one more row, of no user.
\<close>

theorem views_count_outruns_view_rows:
  assumes found: "get_public_post s pk = Found obj" and rows: "user_view_rows s u pk \<le> 1"
  shows "get_public_post (get_objects n (Some u) pk s) pk
           = Found (obj\<lparr>views_count := views_count obj + n\<rparr>)
       \<and> user_view_rows (get_objects n (Some u) pk s) u pk
           = (if n = 0 then user_view_rows s u pk else 1)
       \<and> view_rows (get_objects n (Some u) pk s) pk
           = view_rows s pk + (if 0 < n \<and> user_view_rows s u pk = 0 then 1 else 0)
       \<and> fst (get_object None pk s) =
           s\<lparr>views := views s @ [\<lparr>pv_user = None, pv_post = pk\<rparr>],
              posts := map (\<lambda>p. if post_pk p = pk
                                  then p\<lparr>views_count := views_count p + 1\<rparr> else p)
                         (posts s)\<rparr>"
proof -
  have "get_public_post (get_objects n (Some u) pk s) pk
           = Found (obj\<lparr>views_count := views_count obj + n\<rparr>)
       \<and> user_view_rows (get_objects n (Some u) pk s) u pk
           = (if n = 0 then user_view_rows s u pk else 1)
       \<and> view_rows (get_objects n (Some u) pk s) pk
           = view_rows s pk + (if 0 < n \<and> user_view_rows s u pk = 0 then 1 else 0)"
    using found rows
  proof (induction n arbitrary: s obj)
    case 0
    then show ?case by simp
  next
    case (Suc n)
    let ?s1 = "fst (get_object (Some u) pk s)"
    note st = get_object_step [OF Suc.prems]
    from st have f1: "get_public_post ?s1 pk = Found (obj\<lparr>views_count := views_count obj + 1\<rparr>)"
      and r1: "user_view_rows ?s1 u pk \<le> 1"
      by simp_all
    from Suc.IH [OF f1 r1] st show ?case by simp
  qed
  then show ?thesis using get_object_anonymous [OF found] by simp
qed

theorem views_count_outruns_view_rows_witness:
  "get_public_post small_db 1 = Found (sample_post 1 100)
   \<and> user_view_rows small_db 2 1 \<le> 1
   \<and> get_public_post (get_objects 3 (Some 2) 1 small_db) 1
       = Found (sample_post 1 100\<lparr>views_count := 3\<rparr>)
   \<and> user_view_rows (get_objects 3 (Some 2) 1 small_db) 2 1 = 1
   \<and> view_rows (get_objects 3 (Some 2) 1 small_db) 1 = 1"
proof -
  have p: "get_public_post small_db 1 = Found (sample_post 1 100)"
    by (simp add: get_public_post_def get_def small_db_def empty_db_def sample_post_def)
  have z: "views small_db = []"
    by (simp add: small_db_def empty_db_def)
  have r: "user_view_rows small_db 2 1 \<le> 1"
    by (simp add: user_view_rows_def z)
  show ?thesis
    using p r views_count_outruns_view_rows [OF p r, of 3]
    by (simp add: z user_view_rows_def view_rows_def sample_post_def)
qed

section \<open>Search rejects a blank query\<close>

lemma dropWhile_all: "(\<forall>x\<in>set (dropWhile P t). P x) \<longleftrightarrow> (\<forall>x\<in>set t. P x)"
  by (induction t) auto

lemma strip_empty_iff: "strip t = [] \<longleftrightarrow> list_all isspace t"
  by (simp add: strip_def dropWhile_eq_Nil_conv dropWhile_all list_all_iff)

text \<open>
  C8. A search whose query is absent, empty or made of whitespace only is answered with the
  400 response \<open>Query parameter required\<close>, and queries no table. Every other query is
  answered with four result lists (users, destinations, posts, tags), each of at most ten
  entries, after the four tables have been queried.
\<close>

theorem search_validation:
  "(empty_or_whitespace q \<longrightarrow>
      search_view q s = (Inl (Http400 ''Query parameter required''), []))
   \<and> (\<not> empty_or_whitespace q \<longrightarrow>
      (\<exists>us ds ps ts.
         search_view q s = (Inr (SearchResponse us ds ps ts),
                            [UserTable, DestinationTable, PostTable, TagTable])
         \<and> length us \<le> 10 \<and> length ds \<le> 10 \<and> length ps \<le> 10 \<and> length ts \<le> 10))"
proof (cases q)
  case None
  then show ?thesis by (simp add: empty_or_whitespace_def search_view_def strip_def)
next
  case (Some t)
  then show ?thesis
    by (simp add: empty_or_whitespace_def search_view_def strip_empty_iff Let_def)
qed

theorem search_validation_witness:
  "empty_or_whitespace (Some [CHR '' '', CHR 0x09])
   \<and> search_view (Some [CHR '' '', CHR 0x09]) small_db
       = (Inl (Http400 ''Query parameter required''), [])
   \<and> \<not> empty_or_whitespace (Some '' Bo '')
   \<and> search_view (Some '' Bo '') small_db
       = (Inr (SearchResponse [account 2 ''bob''] [] [] []),
          [UserTable, DestinationTable, PostTable, TagTable])"
proof -
  have a: "empty_or_whitespace (Some [CHR '' '', CHR 0x09])"
    by (simp add: empty_or_whitespace_def isspace_def)
  have b: "\<not> empty_or_whitespace (Some '' Bo '')"
    by (simp add: empty_or_whitespace_def isspace_def)
  have c: "search_view (Some '' Bo '') small_db
       = (Inr (SearchResponse [account 2 ''bob''] [] [] []),
          [UserTable, DestinationTable, PostTable, TagTable])"
    by code_simp
  show ?thesis
    using a b c search_validation [of "Some [CHR '' '', CHR 0x09]" small_db] by blast
qed

section \<open>The page size of the main feed\<close>

text \<open>
  C3 as the spec states it fails: with 45 public posts, an anonymous \<^verbatim>\<open>GET /feed\<close> with
  \<^verbatim>\<open>page_size=100\<close> returns the 20 newest posts and \<open>has_next = True\<close>, not all 45
  with \<open>has_next = False\<close>.
\<close>

theorem feed_page_size_counterexample:
  "length (filter is_public (posts feed_db)) = 45
   \<and> feed_view None (Num 100) Missing feed_db
       = Inr (FeedResponse (map (\<lambda>k. sample_post k (int k)) (rev [25..<45])) True)
   \<and> length (map (\<lambda>k. sample_post k (int k)) (rev [25..<45])) = 20"
  by code_simp

lemma slice_length: "slice a (a + ps) qs = Inr page \<Longrightarrow> int (length page) \<le> max 0 ps"
proof -
  assume "slice a (a + ps) qs = Inr page"
  then have "page = take (nat ps) (drop (nat a) qs)"
    by (simp add: slice_def split: if_splits)
  then have "length page \<le> nat ps" by simp
  then show ?thesis by linarith
qed

lemma feed_view_Inr:
  assumes "feed_view u psp offp s = Inr (FeedResponse page has_next)"
  shows "\<exists>n off qs. int_or psp 10 = Inr n \<and> slice off (off + min n 20) qs = Inr page
           \<and> has_next = (int (length page) = min n 20)"
  using assms
  by (auto simp: feed_view_def Let_def split: sum.splits)

lemma feed_view_page:
  assumes "feed_view u psp offp s = Inr (FeedResponse page has_next)"
  shows "psp \<noteq> NotNum
     \<and> int (length page) \<le> max 0 (case psp of Missing \<Rightarrow> 10 | Num n \<Rightarrow> min n 20 | NotNum \<Rightarrow> 0)
     \<and> has_next = (int (length page) = (case psp of Missing \<Rightarrow> 10 | Num n \<Rightarrow> min n 20 | NotNum \<Rightarrow> 0))"
proof -
  from feed_view_Inr [OF assms] obtain n off qs where
    n: "int_or psp 10 = Inr n" and sl: "slice off (off + min n 20) qs = Inr page"
    and hn: "has_next = (int (length page) = min n 20)" by blast
  from sl have len: "int (length page) \<le> max 0 (min n 20)" by (rule slice_length)
  show ?thesis
  proof (cases psp)
    case Missing
    then have "n = 10" using n by (simp add: int_or_def)
    then show ?thesis using Missing len hn by simp
  next
    case (Num m)
    then have "n = m" using n by (simp add: int_or_def)
    then show ?thesis using Num len hn by simp
  next
    case NotNum
    then show ?thesis using n by (simp add: int_or_def)
  qed
qed

lemma feed_view_45:
  assumes "length (filter is_public (posts s)) = 45"
  shows "feed_view None (Num 100) Missing s
       = Inr (FeedResponse (take 20 (order_by_created (filter is_public (posts s)))) True)"
  using assms
  by (simp add: feed_view_def int_or_def slice_def Let_def order_by_created_def)


text \<open>
  C3 (as the code has it). For \<^verbatim>\<open>GET /feed\<close>, the page size is 10 when the parameter is
  absent and the requested number capped at 20 otherwise. Whenever the view answers with a
  page, the page has at most that many posts, and \<open>has_next\<close> is true exactly when the
  number of returned posts equals that page size. In particular, with 45 public posts an
  anonymous request with \<^verbatim>\<open>page_size=100\<close> returns the first 20 posts of the feed with
  \<open>has_next = True\<close>.
\<close>

theorem feed_page_size:
  "(feed_view u psp offp s = Inr (FeedResponse page has_next) \<longrightarrow>
      psp \<noteq> NotNum
      \<and> int (length page)
          \<le> max 0 (case psp of Missing \<Rightarrow> 10 | Num n \<Rightarrow> min n 20 | NotNum \<Rightarrow> 0)
      \<and> has_next = (int (length page)
                      = (case psp of Missing \<Rightarrow> 10 | Num n \<Rightarrow> min n 20 | NotNum \<Rightarrow> 0)))
   \<and> (length (filter is_public (posts s)) = 45 \<longrightarrow>
      feed_view None (Num 100) Missing s
        = Inr (FeedResponse (take 20 (order_by_created (filter is_public (posts s)))) True)
      \<and> length (take 20 (order_by_created (filter is_public (posts s)))) = 20)"
  using feed_view_page [of u psp offp s page has_next] feed_view_45 [of s]
  by (simp add: order_by_created_def)

theorem feed_page_size_witness:
  "feed_view (Some 2) Missing (Num 0) small_db = Inr (FeedResponse [sample_post 1 100] False)
   \<and> int (length [sample_post 1 100]) \<le> max 0 10
   \<and> length (filter is_public (posts feed_db)) = 45
   \<and> feed_view None (Num 100) Missing feed_db
        = Inr (FeedResponse (take 20 (order_by_created (filter is_public (posts feed_db)))) True)
   \<and> length (take 20 (order_by_created (filter is_public (posts feed_db)))) = 20"
proof -
  have a: "feed_view (Some 2) Missing (Num 0) small_db
           = Inr (FeedResponse [sample_post 1 100] False)"
    by code_simp
  have b: "length (filter is_public (posts feed_db)) = 45"
    by code_simp
  show ?thesis
    using a b
      feed_page_size [of "Some 2" Missing "Num 0" small_db "[sample_post 1 100]" False]
      feed_page_size [of None Missing Missing feed_db "[]" False]
    by simp
qed

section \<open>3D posts, preferences and the trending order\<close>

text \<open>
  C7 as the spec states it fails: the feed modes live in \<open>get_queryset\<close> of the post
  list, which never reads \<open>UserPreference\<close>. Account 1 has \<open>show_3d_content = False\<close>, and
  \<^verbatim>\<open>GET /posts/?feed=latest\<close> still returns the post with \<open>featured_3d = True\<close>.
\<close>

theorem latest_ignores_preferences_counterexample:
  "get (\<lambda>p. pref_user p = 1) (preferences pref_db)
     = Found \<lparr>pref_user = 1, show_3d_content = False\<rparr>
   \<and> featured_3d ((sample_post 1 100)\<lparr>featured_3d := True\<rparr>)
   \<and> get_queryset pref_db 200 (plain_request (Some 1) (Some ''latest''))
       = Inr [(sample_post 1 100)\<lparr>featured_3d := True\<rparr>, sample_post 2 90]
   \<and> list_posts pref_db 200 (plain_request (Some 1) (Some ''latest''))
       = Inr (ListResponse [(sample_post 1 100)\<lparr>featured_3d := True\<rparr>, sample_post 2 90])"
  by code_simp

lemma slice_subset: "slice a b qs = Inr page \<Longrightarrow> set page \<subseteq> set qs"
  by (auto simp: slice_def split: if_splits dest: in_set_takeD in_set_dropD)

lemma get_queryset_preferences:
  "get_queryset (s\<lparr>preferences := ps\<rparr>) now req = get_queryset s now req"
  by (simp add: get_queryset_def Let_def cong: option.case_cong sum.case_cong if_cong)

text \<open>
  C7 (as the code has it). For every authenticated viewer whose preferences have
  \<open>show_3d_content = False\<close>, every page that \<^verbatim>\<open>GET /feed\<close> (\<open>feed_view\<close>) returns holds
  only public posts with \<open>featured_3d = False\<close>, whatever page size and offset are sent;
  \<open>feed_view\<close> has no modes. The feed modes of the post list (\<open>get_queryset\<close>) do not
  depend on the preferences table at all.
\<close>

theorem feed_view_hides_3d:
  assumes prefs: "get (\<lambda>p. pref_user p = u) (preferences s) = Found prefs"
    and off: "\<not> show_3d_content prefs"
    and page: "feed_view (Some u) psp offp s = Inr (FeedResponse page has_next)"
  shows "list_all (\<lambda>p. \<not> featured_3d p \<and> is_public p) page
    \<and> get_queryset (s\<lparr>preferences := ps\<rparr>) now req = get_queryset s now req"
proof -
  let ?qs = "order_by_created (filter (\<lambda>p. featured_3d p = False) (filter is_public (posts s)))"
  from page prefs off obtain a b where "slice a b ?qs = Inr page"
    by (auto simp: feed_view_def Let_def split: sum.splits)
  then have "set page \<subseteq> set ?qs" by (rule slice_subset)
  then show ?thesis
    by (auto simp: list_all_iff order_by_created_def get_queryset_preferences)
qed

theorem feed_view_hides_3d_witness:
  "get (\<lambda>p. pref_user p = 1) (preferences pref_db)
     = Found \<lparr>pref_user = 1, show_3d_content = False\<rparr>
   \<and> \<not> show_3d_content \<lparr>pref_user = 1, show_3d_content = False\<rparr>
   \<and> feed_view (Some 1) Missing Missing pref_db = Inr (FeedResponse [sample_post 2 90] False)
   \<and> list_all (\<lambda>p. \<not> featured_3d p \<and> is_public p) [sample_post 2 90]"
proof -
  have a: "get (\<lambda>p. pref_user p = 1) (preferences pref_db)
     = Found \<lparr>pref_user = 1, show_3d_content = False\<rparr>"
    by code_simp
  have b: "\<not> show_3d_content \<lparr>pref_user = 1, show_3d_content = False\<rparr>" by simp
  have c: "feed_view (Some 1) Missing Missing pref_db
     = Inr (FeedResponse [sample_post 2 90] False)"
    by code_simp
  show ?thesis using a b c feed_view_hides_3d [OF a b c, of "[]" 0 "plain_request None None"]
    by simp
qed

lemma get_queryset_trending:
  "get_queryset s now (plain_request u (Some ''trending''))
     = Inr (sort_key (\<lambda>p. (- int (engagement_score p), - created_at p))
             (filter (\<lambda>p. now - 86400000000 \<le> created_at p) (filter is_public (posts s))))"
  by (simp add: get_queryset_def plain_request_def Let_def)

lemma get_queryset_trending_sorted:
  "get_queryset s now (plain_request u (Some ''trending'')) = Inr qs \<Longrightarrow>
   sorted (map (\<lambda>p. (- int (engagement_score p), - created_at p)) qs)
   \<and> set qs = {p \<in> set (posts s). is_public p \<and> now - 86400000000 \<le> created_at p}"
  by (auto simp: get_queryset_trending)

text \<open>
  C5. \<open>get_queryset\<close> does select the public posts of the last 24 hours and order them by
  engagement score, then creation time, both descending (the two lemmas above). The
  response of \<^verbatim>\<open>GET /posts/?feed=trending\<close> does not keep that order: the view's
  \<^verbatim>\<open>OrderingFilter\<close> with \<^verbatim>\<open>ordering = ['-created_at']\<close> orders the queryset again, by
  creation time only. With a post of score 10 and a newer post of score 0, both public and
  within the last 24 hours, the response lists the post of score 0 first.
\<close>

theorem trending_order_lost:
  "engagement_score ((sample_post 1 150000000000)\<lparr>likes_count := 10\<rparr>) = 10
   \<and> engagement_score (sample_post 2 160000000000) = 0
   \<and> get_queryset trending_db 200000000000 (plain_request None (Some ''trending''))
       = Inr [(sample_post 1 150000000000)\<lparr>likes_count := 10\<rparr>, sample_post 2 160000000000]
   \<and> list_posts trending_db 200000000000 (plain_request None (Some ''trending''))
       = Inr (ListResponse
           [sample_post 2 160000000000, (sample_post 1 150000000000)\<lparr>likes_count := 10\<rparr>])"
  by code_simp

end
